theory Spec2Isabelle
  imports Complex_Main
begin

section \<open>Python strings and the string operations the notebook uses\<close>

text \<open>
  A Python \<open>str\<close> is a sequence of Unicode code points. The notebook's texts are
  Russian, and the label it writes into a fragment reference is Cyrillic, so a string is
  modelled as the list of its code points; \<open>ustr\<close> embeds an ASCII literal.
\<close>

type_synonym pystr = "nat list"

definition ustr :: "string \<Rightarrow> pystr" where
  "ustr s = map of_char s"

text \<open>
  \<open>str.isspace\<close> for one code point (CPython's \<open>_PyUnicode_IsWhitespace\<close>):
  U+0009..U+000D, U+001C..U+0020, U+0085, U+00A0, U+1680, U+2000..U+200A, U+2028, U+2029,
  U+202F, U+205F and U+3000.
\<close>

definition py_isspace :: "nat \<Rightarrow> bool" where
  "py_isspace c \<longleftrightarrow>
     (9 \<le> c \<and> c \<le> 13) \<or> (28 \<le> c \<and> c \<le> 32) \<or> c = 133 \<or> c = 160 \<or> c = 5760 \<or>
     (8192 \<le> c \<and> c \<le> 8202) \<or> c = 8232 \<or> c = 8233 \<or> c = 8239 \<or> c = 8287 \<or> c = 12288"

text \<open>
  \<open>text.split()\<close> with no argument: runs of whitespace separate the words, and leading
  and trailing whitespace gives no empty word. \<open>split_from cur s\<close> scans \<open>s\<close> with the
  word read so far in \<open>cur\<close>.
\<close>

fun split_from :: "pystr \<Rightarrow> pystr \<Rightarrow> pystr list" where
  "split_from cur [] = (if cur = [] then [] else [cur])"
| "split_from cur (c # cs) =
     (if py_isspace c then (if cur = [] then split_from [] cs else cur # split_from [] cs)
      else split_from (cur @ [c]) cs)"

definition py_split :: "pystr \<Rightarrow> pystr list" where
  "py_split s = split_from [] s"

text \<open>\<open>sep.join(words)\<close>.\<close>

fun py_join :: "pystr \<Rightarrow> pystr list \<Rightarrow> pystr" where
  "py_join sep [] = []"
| "py_join sep [w] = w"
| "py_join sep (w # v # ws) = w @ sep @ py_join sep (v # ws)"

text \<open>
  A slice \<open>xs[a:b]\<close>: a negative bound counts from the end, and both bounds are clamped
  to the list. An empty range gives the empty list.
\<close>

definition slice_bound :: "nat \<Rightarrow> int \<Rightarrow> nat" where
  "slice_bound n i = (if i < 0 then nat (max 0 (i + int n)) else min n (nat i))"

definition py_slice :: "'a list \<Rightarrow> int \<Rightarrow> int \<Rightarrow> 'a list" where
  "py_slice xs a b =
     (let lo = slice_bound (length xs) a; hi = slice_bound (length xs) b
      in take (hi - lo) (drop lo xs))"

text \<open>The decimal text of an integer, as an f-string field \<open>{n}\<close> prints it.\<close>

fun digits :: "nat \<Rightarrow> pystr" where
  "digits n = (if n < 10 then [48 + n] else digits (n div 10) @ [48 + n mod 10])"

declare digits.simps [simp del]

definition py_str_int :: "int \<Rightarrow> pystr" where
  "py_str_int i = (if i < 0 then 45 # digits (nat (- i)) else digits (nat i))"

section \<open>The chunker\<close>

text \<open>
  One record of \<open>legal_data\<close>. The notebook reads two keys of each record, whose names
  are the Russian words for "text" and "reference"; the fields below stand for them.
\<close>

record document =
  text_of :: pystr
  reference :: pystr

datatype error = ZeroDivisionError | ValueError | UnpicklingError

type_synonym chunk_state = "pystr list \<times> pystr list"

text \<open>
  The literal part of the f-string that builds a fragment reference: a space, a hyphen, a
  space, the eight Cyrillic letters U+0424 U+0440 U+0430 U+0433 U+043C U+0435 U+043D U+0442
  (the Russian word for "fragment") and a space.
\<close>

definition fragment_label :: pystr where
  "fragment_label = ustr '' - '' @ [1060, 1088, 1072, 1075, 1084, 1077, 1085, 1090] @ ustr '' ''"

text \<open>
  The inner \<open>while\<close> loop of \<open>chunk_documents\<close>. The state is the window start
  \<open>current_position\<close> and the two result lists \<open>(chunks, references)\<close>. The loop has no
  bound of its own, so a run that never leaves it is the value \<open>None\<close>; the floor
  division by \<open>max_chunk_size\<close> raises when that is zero.
\<close>

partial_function (option) chunk_loop ::
  "pystr list \<Rightarrow> pystr \<Rightarrow> int \<Rightarrow> int \<Rightarrow> int \<Rightarrow> chunk_state \<Rightarrow> (error + chunk_state) option"
where
  "chunk_loop words ref max_chunk_size overlap current_position acc =
     (if current_position < int (length words) then
        (let end_position = min (current_position + max_chunk_size) (int (length words));
             chunk = py_join (ustr '' '') (py_slice words current_position end_position)
         in if max_chunk_size = 0 then Some (Inl ZeroDivisionError)
            else
              (let ref_info =
                     ref @ fragment_label @ py_str_int (current_position div max_chunk_size + 1)
               in chunk_loop words ref max_chunk_size overlap
                    (current_position + (max_chunk_size - overlap))
                    (fst acc @ [chunk], snd acc @ [ref_info])))
      else Some (Inr acc))"

declare chunk_loop.simps [code]

text \<open>The body of the \<open>for\<close> loop, for one record.\<close>

definition chunk_item ::
  "document \<Rightarrow> int \<Rightarrow> int \<Rightarrow> chunk_state \<Rightarrow> (error + chunk_state) option" where
  "chunk_item item max_chunk_size overlap acc =
     (if int (length (py_split (text_of item))) \<le> max_chunk_size then
        Some (Inr (fst acc @ [text_of item], snd acc @ [reference item]))
      else chunk_loop (py_split (text_of item)) (reference item) max_chunk_size overlap 0 acc)"

text \<open>The \<open>for\<close> loop over \<open>legal_data\<close>: an error or a run that never returns ends it.\<close>

fun chunk_items ::
  "document list \<Rightarrow> int \<Rightarrow> int \<Rightarrow> chunk_state \<Rightarrow> (error + chunk_state) option" where
  "chunk_items [] max_chunk_size overlap acc = Some (Inr acc)"
| "chunk_items (item # rest) max_chunk_size overlap acc =
     (case chunk_item item max_chunk_size overlap acc of
        None \<Rightarrow> None
      | Some (Inl e) \<Rightarrow> Some (Inl e)
      | Some (Inr acc') \<Rightarrow> chunk_items rest max_chunk_size overlap acc')"

definition chunk_documents ::
  "document list \<Rightarrow> int \<Rightarrow> int \<Rightarrow> (error + chunk_state) option" where
  "chunk_documents legal_data max_chunk_size overlap =
     chunk_items legal_data max_chunk_size overlap ([], [])"

text \<open>
  A result of the loops put behind lists that exist already: an error or a run that never
  returns stays what it is.
\<close>

definition extend_state :: "chunk_state \<Rightarrow> (error + chunk_state) option \<Rightarrow> (error + chunk_state) option" where
  "extend_state acc r =
     (case r of
        None \<Rightarrow> None
      | Some (Inl e) \<Rightarrow> Some (Inl e)
      | Some (Inr new) \<Rightarrow> Some (Inr (fst acc @ fst new, snd acc @ snd new)))"

section \<open>The embedder's batching and the index\<close>

text \<open>
  \<open>range(start, stop, step)\<close> as a list. A zero step raises in Python; the callers below
  test for it before they build the range.
\<close>

function py_range :: "int \<Rightarrow> int \<Rightarrow> int \<Rightarrow> int list" where
  "py_range start stop step =
     (if 0 < step \<and> start < stop then start # py_range (start + step) stop step
      else if step < 0 \<and> stop < start then start # py_range (start + step) stop step
      else [])"
  by pat_completeness auto
termination
  by (relation "measure (\<lambda>(start, stop, step). nat (if 0 < step then stop - start else start - stop))")
    auto

declare py_range.simps [simp del]

text \<open>
  \<open>E5Embedder.encode\<close>. The tokenizer, the network, the pooling and the normalisation are
  one opaque function \<open>model\<close> from a batch of prefixed texts to the rows it returns.
  The batches are the slices \<open>texts[i:i+batch_size]\<close> for \<open>i\<close> in
  \<open>range(0, len(texts), batch_size)\<close>; \<open>np.vstack\<close> stacks the rows of all batches and
  raises \<open>ValueError\<close> on an empty list of batches.
\<close>

definition batches :: "'a list \<Rightarrow> int \<Rightarrow> 'a list list" where
  "batches texts batch_size =
     map (\<lambda>i. py_slice texts i (i + batch_size)) (py_range 0 (int (length texts)) batch_size)"

definition passage :: "pystr \<Rightarrow> pystr" where
  "passage t = ustr ''passage: '' @ t"

definition encode :: "(pystr list \<Rightarrow> 'v list) \<Rightarrow> pystr list \<Rightarrow> int \<Rightarrow> error + 'v list" where
  "encode model texts batch_size =
     (if batch_size = 0 then Inl ValueError
      else
        (let all_embeddings = map (\<lambda>batch_texts. model (map passage batch_texts)) (batches texts batch_size)
         in if all_embeddings = [] then Inl ValueError else Inr (concat all_embeddings)))"

text \<open>
  The flat inner-product index, as the list of the vectors it stores: \<open>add\<close> appends the
  rows it is given, and the position of a vector is its place in that list.
\<close>

definition index_add :: "'v list \<Rightarrow> 'v list \<Rightarrow> 'v list" where
  "index_add index embeddings = index @ embeddings"

definition create_improved_faiss_index ::
  "document list \<Rightarrow> (pystr list \<Rightarrow> 'v list) \<Rightarrow> int \<Rightarrow> int \<Rightarrow>
     (error + 'v list \<times> pystr list \<times> pystr list) option" where
  "create_improved_faiss_index legal_data model chunk_size overlap =
     (case chunk_documents legal_data chunk_size overlap of
        None \<Rightarrow> None
      | Some (Inl e) \<Rightarrow> Some (Inl e)
      | Some (Inr (chunks, references)) \<Rightarrow>
          (case encode model chunks 8 of
             Inl e \<Rightarrow> Some (Inl e)
           | Inr embeddings \<Rightarrow> Some (Inr (index_add [] embeddings, chunks, references))))"

section \<open>Window starts, window texts and fragment references\<close>

text \<open>
  The text and the reference that one turn of the \<open>while\<close> loop appends for the window
  that starts at \<open>p\<close>, and what one record contributes: \<open>None\<close> stands for the record
  kept whole, \<open>Some p\<close> for the window at \<open>p\<close>.
\<close>

definition window_text :: "pystr list \<Rightarrow> int \<Rightarrow> int \<Rightarrow> pystr" where
  "window_text words max_chunk_size p =
     py_join (ustr '' '') (py_slice words p (min (p + max_chunk_size) (int (length words))))"

definition window_ref :: "pystr \<Rightarrow> int \<Rightarrow> int \<Rightarrow> pystr" where
  "window_ref ref max_chunk_size p = ref @ fragment_label @ py_str_int (p div max_chunk_size + 1)"

definition item_windows :: "document \<Rightarrow> int \<Rightarrow> int \<Rightarrow> int option list" where
  "item_windows item max_chunk_size overlap =
     (if int (length (py_split (text_of item))) \<le> max_chunk_size then [None]
      else map Some (py_range 0 (int (length (py_split (text_of item)))) (max_chunk_size - overlap)))"

fun item_text :: "document \<Rightarrow> int \<Rightarrow> int option \<Rightarrow> pystr" where
  "item_text item max_chunk_size None = text_of item"
| "item_text item max_chunk_size (Some p) = window_text (py_split (text_of item)) max_chunk_size p"

fun item_ref :: "document \<Rightarrow> int \<Rightarrow> int option \<Rightarrow> pystr" where
  "item_ref item max_chunk_size None = reference item"
| "item_ref item max_chunk_size (Some p) = window_ref (reference item) max_chunk_size p"

text \<open>
  The origins of all chunks of a run, in order: the position of the record in
  \<open>legal_data\<close> (counted from \<open>k\<close>) paired with the window.
\<close>

fun origins_from :: "nat \<Rightarrow> document list \<Rightarrow> int \<Rightarrow> int \<Rightarrow> (nat \<times> int option) list" where
  "origins_from k [] max_chunk_size overlap = []"
| "origins_from k (item # rest) max_chunk_size overlap =
     map (Pair k) (item_windows item max_chunk_size overlap)
     @ origins_from (Suc k) rest max_chunk_size overlap"

definition origin_text :: "document list \<Rightarrow> int \<Rightarrow> nat \<times> int option \<Rightarrow> pystr" where
  "origin_text legal_data max_chunk_size og = item_text (legal_data ! fst og) max_chunk_size (snd og)"

definition origin_ref :: "document list \<Rightarrow> int \<Rightarrow> nat \<times> int option \<Rightarrow> pystr" where
  "origin_ref legal_data max_chunk_size og = item_ref (legal_data ! fst og) max_chunk_size (snd og)"

section \<open>Reading a saved index back\<close>

text \<open>
  The two files of a saved index: the index itself and the pickled dictionary with the
  keys \<open>chunks\<close>, \<open>references\<close> and \<open>embedder_model\<close>. A file system maps the path of
  each existing file to what is stored there.
\<close>

record index_bundle =
  chunks :: "pystr list"
  references :: "pystr list"
  embedder_model :: pystr

datatype 'v stored_file = FaissIndexFile "'v list" | PickleFile index_bundle

type_synonym 'v filesystem = "pystr \<rightharpoonup> 'v stored_file"

text \<open>\<open>os.path.join\<close> of two components, with \<open>/\<close> (code point 47) as the separator.\<close>

definition os_path_join :: "pystr \<Rightarrow> pystr \<Rightarrow> pystr" where
  "os_path_join a b =
     (if b \<noteq> [] \<and> hd b = 47 then b
      else if a = [] \<or> last a = 47 then a @ b
      else a @ [47] @ b)"

text \<open>
  The last cell of the notebook, the only place that reads a saved index back. When both
  files exist it unpickles the data file and prints the number of chunks and the name of
  the embedding model; the result below is that pair, or \<open>None\<close> when a file is missing.
  The file sizes the cell also prints are not modelled.
\<close>

definition verification_cell :: "'v filesystem \<Rightarrow> pystr \<Rightarrow> error + (nat \<times> pystr) option" where
  "verification_cell fs output_dir =
     (let index_file = os_path_join output_dir (ustr ''legal_index.faiss'');
          data_file = os_path_join output_dir (ustr ''chunks_references.pkl'')
      in if fs index_file \<noteq> None \<and> fs data_file \<noteq> None then
           (case fs data_file of
              Some (PickleFile data) \<Rightarrow> Inr (Some (length (chunks data), embedder_model data))
            | _ \<Rightarrow> Inl UnpicklingError)
         else Inr None)"

section \<open>The while loop in closed form\<close>

lemma py_range_empty: "\<not> start < stop \<Longrightarrow> 0 \<le> step \<Longrightarrow> py_range start stop step = []"
  by (subst py_range.simps) simp

lemma chunk_loop_done:
  "\<not> p < int (length words) \<Longrightarrow> chunk_loop words ref m ov p acc = Some (Inr acc)"
  by (subst chunk_loop.simps) simp

lemma chunk_loop_zero:
  "p < int (length words) \<Longrightarrow> chunk_loop words ref 0 ov p acc = Some (Inl ZeroDivisionError)"
  by (subst chunk_loop.simps) simp

lemma chunk_loop_step:
  "p < int (length words) \<Longrightarrow> m \<noteq> 0 \<Longrightarrow>
   chunk_loop words ref m ov p acc =
   chunk_loop words ref m ov (p + (m - ov))
     (fst acc @ [window_text words m p], snd acc @ [window_ref ref m p])"
  by (subst chunk_loop.simps) (simp add: window_text_def window_ref_def)

lemma chunk_loop_returns:
  assumes "n = int (length words)" and "s = m - ov" and "m \<noteq> 0" and "0 < s"
  shows "chunk_loop words ref m ov p acc =
         Some (Inr (fst acc @ map (window_text words m) (py_range p n s),
                    snd acc @ map (window_ref ref m) (py_range p n s)))"
  using assms
proof (induction p n s arbitrary: acc rule: py_range.induct)
  case (1 start stop step)
  show ?case
  proof (cases "start < stop")
    case True
    have r: "py_range start stop step = start # py_range (start + step) stop step"
      using True "1.prems" by (subst py_range.simps) simp
    have "chunk_loop words ref m ov start acc =
          chunk_loop words ref m ov (start + step)
            (fst acc @ [window_text words m start], snd acc @ [window_ref ref m start])"
      using True "1.prems" by (simp add: chunk_loop_step)
    also have "\<dots> = Some (Inr (fst acc @ map (window_text words m) (py_range start stop step),
                    snd acc @ map (window_ref ref m) (py_range start stop step)))"
      using True "1.prems" "1.IH"(1) r by simp
    finally show ?thesis .
  next
    case False
    then show ?thesis using "1.prems"
      by (simp add: chunk_loop_done py_range_empty)
  qed
qed

lemma chunk_loop_some_step:
  assumes "chunk_loop words ref m ov p acc = Some y"
  shows "\<not> (m \<noteq> 0 \<and> m - ov \<le> 0 \<and> p < int (length words))"
proof (rule chunk_loop.raw_induct
    [where P = "\<lambda>words ref m ov p acc y. \<not> (m \<noteq> 0 \<and> m - ov \<le> 0 \<and> p < int (length words))",
      OF _ assms])
  fix loop :: "pystr list \<Rightarrow> pystr \<Rightarrow> int \<Rightarrow> int \<Rightarrow> int \<Rightarrow> chunk_state \<Rightarrow> (error + chunk_state) option"
  fix words ref m ov p acc y
  assume IH: "\<And>words ref m ov p acc y. loop words ref m ov p acc = Some y \<Longrightarrow>
                \<not> (m \<noteq> 0 \<and> m - ov \<le> 0 \<and> p < int (length words))"
  assume body: "(if p < int (length words)
      then let end_position = min (p + m) (int (length words));
               chunk = py_join (ustr '' '') (py_slice words p end_position)
           in if m = 0 then Some (Inl ZeroDivisionError)
              else let ref_info = ref @ fragment_label @ py_str_int (p div m + 1)
                   in loop words ref m ov (p + (m - ov)) (fst acc @ [chunk], snd acc @ [ref_info])
      else Some (Inr acc)) = Some y"
  show "\<not> (m \<noteq> 0 \<and> m - ov \<le> 0 \<and> p < int (length words))"
  proof
    assume h: "m \<noteq> 0 \<and> m - ov \<le> 0 \<and> p < int (length words)"
    with body have "loop words ref m ov (p + (m - ov))
        (fst acc @ [window_text words m p], snd acc @ [window_ref ref m p]) = Some y"
      by (simp add: window_text_def window_ref_def)
    from IH [OF this] h show False by linarith
  qed
qed

lemma chunk_loop_diverges:
  "m \<noteq> 0 \<Longrightarrow> m - ov \<le> 0 \<Longrightarrow> p < int (length words) \<Longrightarrow> chunk_loop words ref m ov p acc = None"
  using chunk_loop_some_step [of words ref m ov p acc] by (cases "chunk_loop words ref m ov p acc") auto

lemma chunk_item_cases:
  "chunk_item item m ov acc =
     (let words = py_split (text_of item) in
      if int (length words) \<le> m then Some (Inr (fst acc @ [text_of item], snd acc @ [reference item]))
      else if words = [] then Some (Inr acc)
      else if m = 0 then Some (Inl ZeroDivisionError)
      else if m - ov \<le> 0 then None
      else Some (Inr (fst acc @ map (window_text words m) (py_range 0 (int (length words)) (m - ov)),
                      snd acc @ map (window_ref (reference item) m) (py_range 0 (int (length words)) (m - ov)))))"
  by (simp add: chunk_item_def Let_def chunk_loop_done chunk_loop_zero chunk_loop_diverges
      chunk_loop_returns [OF refl refl])

section \<open>Lengths of ranges\<close>

lemma py_range_zero_stop: "py_range 0 0 step = []"
  by (subst py_range.simps) simp

lemma py_range_nonempty: "0 < step \<Longrightarrow> start < stop \<Longrightarrow> py_range start stop step \<noteq> []"
  by (subst py_range.simps) simp

lemma length_py_range:
  "0 < step \<Longrightarrow> int (length (py_range start stop step)) = max 0 (- ((start - stop) div step))"
proof (induction start stop step rule: py_range.induct)
  case (1 start stop step)
  show ?case
  proof (cases "start < stop")
    case True
    have r: "py_range start stop step = start # py_range (start + step) stop step"
      using True "1.prems" by (subst py_range.simps) simp
    have "start + step - stop = (start - stop) + step" by simp
    then have d: "(start + step - stop) div step = (start - stop) div step + 1"
      using "1.prems" by (metis div_add_self2 less_irrefl)
    have neg: "(start - stop) div step < 0"
      using True "1.prems" by (simp add: pos_imp_zdiv_neg_iff)
    show ?thesis
      using "1.IH"(1) True "1.prems" neg by (simp add: r d)
  next
    case False
    then have "0 \<le> (start - stop) div step"
      using "1.prems" by (simp add: pos_imp_zdiv_nonneg_iff)
    then show ?thesis
      using False "1.prems" by (simp add: py_range_empty)
  qed
qed

lemma neg_div_nonpos:
  fixes n step :: int
  assumes "0 < step" and "0 \<le> n"
  shows "- n div step \<le> 0"
proof (cases "n = 0")
  case True
  then show ?thesis by simp
next
  case False
  then have "- n div step < 0"
    using assms by (simp add: pos_imp_zdiv_neg_iff)
  then show ?thesis by simp
qed

lemma neg_div_lower:
  fixes n step :: int
  assumes "1 \<le> step" and "0 \<le> n"
  shows "- n \<le> - n div step"
proof (cases "n = 0")
  case True
  then show ?thesis by simp
next
  case False
  then have "- n < 0" using assms by simp
  from zdiv_mono2_neg [OF this, of 1 step] assms show ?thesis by simp
qed

lemma length_py_range_ceiling:
  assumes "0 < step" and "0 \<le> n"
  shows "int (length (py_range 0 n step)) = \<lceil>real_of_int n / real_of_int step\<rceil>"
  using assms neg_div_nonpos [OF assms]
  by (simp add: length_py_range ceiling_divide_eq_div)

lemma length_py_range_le:
  assumes "1 \<le> step" and "0 \<le> n"
  shows "int (length (py_range 0 n step)) \<le> n"
  using assms neg_div_lower [OF assms] by (simp add: length_py_range)

section \<open>What one record contributes\<close>

lemma long_nonempty: "\<not> int (length ws) \<le> m \<Longrightarrow> 0 \<le> m \<Longrightarrow> ws \<noteq> []"
  by auto

lemma item_windows_short:
  "int (length (py_split (text_of item))) \<le> m \<Longrightarrow> item_windows item m ov = [None]"
  by (simp add: item_windows_def)

lemma item_windows_long:
  "\<not> int (length (py_split (text_of item))) \<le> m \<Longrightarrow>
   item_windows item m ov = map Some (py_range 0 (int (length (py_split (text_of item)))) (m - ov))"
  by (simp add: item_windows_def)

lemma map_item_text_Some: "item_text item m \<circ> Some = window_text (py_split (text_of item)) m"
  by (rule ext) simp

lemma map_item_ref_Some: "item_ref item m \<circ> Some = window_ref (reference item) m"
  by (rule ext) simp

lemma chunk_item_windows:
  assumes "chunk_item item m ov acc = Some (Inr acc')"
  shows "acc' = (fst acc @ map (item_text item m) (item_windows item m ov),
                 snd acc @ map (item_ref item m) (item_windows item m ov))"
proof (cases "int (length (py_split (text_of item))) \<le> m")
  case True
  with assms show ?thesis
    by (simp add: chunk_item_cases Let_def item_windows_short)
next
  case False
  note long = this
  show ?thesis
  proof (cases "py_split (text_of item) = []")
    case True
    with assms long show ?thesis
      by (simp add: chunk_item_cases Let_def item_windows_long py_range_zero_stop)
  next
    case False
    with assms long have "m \<noteq> 0" and "\<not> m - ov \<le> 0"
      by (auto simp add: chunk_item_cases Let_def split: if_splits)
    with assms long False show ?thesis
      by (simp add: chunk_item_cases Let_def item_windows_long map_item_text_Some map_item_ref_Some)
  qed
qed

lemma chunk_item_total:
  assumes "1 \<le> m" and "ov < m"
  shows "chunk_item item m ov acc =
         Some (Inr (fst acc @ map (item_text item m) (item_windows item m ov),
                    snd acc @ map (item_ref item m) (item_windows item m ov)))"
proof (cases "int (length (py_split (text_of item))) \<le> m")
  case True
  then show ?thesis
    by (simp add: chunk_item_cases Let_def item_windows_short)
next
  case False
  then have "py_split (text_of item) \<noteq> []" using assms by (intro long_nonempty [of _ m]) simp_all
  with False assms show ?thesis
    by (simp add: chunk_item_cases Let_def item_windows_long map_item_text_Some map_item_ref_Some)
qed


lemma length_item_windows_le:
  assumes "1 \<le> m" and "ov < m"
  shows "int (length (item_windows item m ov)) \<le> max 1 (int (length (py_split (text_of item))))"
proof (cases "int (length (py_split (text_of item))) \<le> m")
  case True
  then show ?thesis by (simp add: item_windows_short)
next
  case False
  have "int (length (py_range 0 (int (length (py_split (text_of item)))) (m - ov)))
          \<le> int (length (py_split (text_of item)))"
    using assms by (intro length_py_range_le) simp_all
  then show ?thesis
    using False by (simp add: item_windows_long)
qed

lemma item_windows_nonempty:
  assumes "1 \<le> m" and "ov < m"
  shows "item_windows item m ov \<noteq> []"
proof (cases "int (length (py_split (text_of item))) \<le> m")
  case True
  then show ?thesis by (simp add: item_windows_short)
next
  case False
  then have "0 < int (length (py_split (text_of item)))"
    using assms by linarith
  then have "py_range 0 (int (length (py_split (text_of item)))) (m - ov) \<noteq> []"
    using assms by (intro py_range_nonempty) linarith+
  then show ?thesis
    using False by (simp add: item_windows_long)
qed

section \<open>The for loop over all records\<close>

lemma chunk_items_total:
  assumes "1 \<le> m" and "ov < m"
  shows "\<exists>acc'. chunk_items docs m ov acc = Some (Inr acc') \<and>
           int (length (fst acc')) \<le>
             int (length (fst acc)) + (\<Sum>item\<leftarrow>docs. max 1 (int (length (py_split (text_of item)))))"
proof (induction docs arbitrary: acc)
  case Nil
  show ?case by simp
next
  case (Cons item rest)
  let ?acc1 = "(fst acc @ map (item_text item m) (item_windows item m ov),
                snd acc @ map (item_ref item m) (item_windows item m ov))"
  obtain acc' where a: "chunk_items rest m ov ?acc1 = Some (Inr acc')"
    and b: "int (length (fst acc')) \<le>
              int (length (fst ?acc1)) + (\<Sum>item\<leftarrow>rest. max 1 (int (length (py_split (text_of item)))))"
    using Cons.IH [of ?acc1] by blast
  have "chunk_items (item # rest) m ov acc = Some (Inr acc')"
    using a by (simp add: chunk_item_total [OF assms])
  moreover have "int (length (fst acc')) \<le>
      int (length (fst acc)) + (\<Sum>item\<leftarrow>item # rest. max 1 (int (length (py_split (text_of item)))))"
    using b length_item_windows_le [OF assms, of item] by simp
  ultimately show ?case by blast
qed

lemma chunk_items_no_step:
  assumes "1 \<le> m" and "m \<le> ov"
  shows "chunk_items docs m ov acc =
     (if \<forall>item\<in>set docs. int (length (py_split (text_of item))) \<le> m
      then Some (Inr (fst acc @ map text_of docs, snd acc @ map reference docs))
      else None)"
proof (induction docs arbitrary: acc)
  case Nil
  show ?case by simp
next
  case (Cons item rest)
  show ?case
  proof (cases "int (length (py_split (text_of item))) \<le> m")
    case True
    then show ?thesis
      by (simp add: chunk_item_cases Let_def Cons.IH)
  next
    case False
    then have "py_split (text_of item) \<noteq> []" using assms by (intro long_nonempty [of _ m]) simp_all
    with False assms show ?thesis
      by (simp add: chunk_item_cases Let_def)
  qed
qed

lemma chunk_items_origins:
  assumes "chunk_items docs m ov acc = Some (Inr acc')" and "docs = drop k legal_data"
  shows "acc' = (fst acc @ map (origin_text legal_data m) (origins_from k docs m ov),
                 snd acc @ map (origin_ref legal_data m) (origins_from k docs m ov))"
  using assms
proof (induction docs arbitrary: acc k)
  case Nil
  then show ?case by simp
next
  case (Cons item rest)
  from Cons.prems(2) have k: "k < length legal_data"
    by (metis drop_all list.distinct(1) not_le)
  with Cons.prems(2) have item: "item = legal_data ! k" and rest: "rest = drop (Suc k) legal_data"
    by (simp_all add: Cons_nth_drop_Suc [symmetric])
  obtain acc1 where s1: "chunk_item item m ov acc = Some (Inr acc1)"
    and s2: "chunk_items rest m ov acc1 = Some (Inr acc')"
    using Cons.prems(1) by (auto split: option.splits sum.splits)
  note w = chunk_item_windows [OF s1]
  have t: "map (origin_text legal_data m) (map (Pair k) ws) = map (item_text item m) ws" for ws
    by (simp add: origin_text_def item comp_def)
  have r: "map (origin_ref legal_data m) (map (Pair k) ws) = map (item_ref item m) ws" for ws
    by (simp add: origin_ref_def item comp_def)
  from Cons.IH [OF s2 rest] show ?case
    by (simp add: w t r del: map_map)
qed

lemma origins_from_fst:
  "og \<in> set (origins_from k docs m ov) \<Longrightarrow> k \<le> fst og \<and> fst og < k + length docs"
  by (induction docs arbitrary: k) (fastforce)+

lemma sorted_map_const: "sorted (map (\<lambda>x. k) xs)"
  by (induction xs) simp_all

lemma origins_from_sorted: "sorted (map fst (origins_from k docs m ov))"
proof (induction docs arbitrary: k)
  case Nil
  show ?case by simp
next
  case (Cons item rest)
  have "k \<le> fst y" if "y \<in> set (origins_from (Suc k) rest m ov)" for y
    using origins_from_fst [OF that] by simp
  then show ?case
    using Cons.IH [of "Suc k"] by (simp add: sorted_append comp_def sorted_map_const)
qed

section \<open>The result lists only grow, and a run splits at any record\<close>

lemma chunk_item_total_nonzero:
  assumes "m \<noteq> 0" and "ov < m"
  shows "chunk_item item m ov acc =
         Some (Inr (fst acc @ map (item_text item m) (item_windows item m ov),
                    snd acc @ map (item_ref item m) (item_windows item m ov)))"
proof (cases "int (length (py_split (text_of item))) \<le> m")
  case True
  then show ?thesis
    by (simp add: chunk_item_cases Let_def item_windows_short)
next
  case False
  with assms show ?thesis
    by (simp add: chunk_item_cases Let_def item_windows_long map_item_text_Some map_item_ref_Some
        py_range_zero_stop)
qed

lemma extend_state_simps [simp]:
  "extend_state acc None = None"
  "extend_state acc (Some (Inl e)) = Some (Inl e)"
  "extend_state acc (Some (Inr new)) = Some (Inr (fst acc @ fst new, snd acc @ snd new))"
  by (simp_all add: extend_state_def)

lemma chunk_item_acc:
  "chunk_item item m ov acc =
     extend_state acc
       (chunk_item item m ov ([], []))"
  by (simp add: chunk_item_cases Let_def extend_state_def)

lemma chunk_items_acc:
  "chunk_items docs m ov acc =
     extend_state acc
       (chunk_items docs m ov ([], []))"
proof (induction docs arbitrary: acc)
  case Nil
  show ?case by simp
next
  case (Cons item rest)
  show ?case
  proof (cases "chunk_item item m ov ([], [])")
    case None
    then show ?thesis
      using chunk_item_acc [of item m ov acc] by simp
  next
    case (Some r)
    show ?thesis
    proof (cases r)
      case (Inl e)
      with Some show ?thesis
        using chunk_item_acc [of item m ov acc] by simp
    next
      case (Inr a1)
      with Some have one: "chunk_item item m ov acc = Some (Inr (fst acc @ fst a1, snd acc @ snd a1))"
        using chunk_item_acc [of item m ov acc] by simp
      have "chunk_items (item # rest) m ov acc =
              chunk_items rest m ov (fst acc @ fst a1, snd acc @ snd a1)"
        by (simp add: one)
      also have "\<dots> = extend_state (fst acc @ fst a1, snd acc @ snd a1)
       (chunk_items rest m ov ([], []))"
        using Cons.IH [of "(fst acc @ fst a1, snd acc @ snd a1)"] by simp
      also have "\<dots> = extend_state acc
       (chunk_items rest m ov a1)"
        using Cons.IH [of a1]
        by (cases "chunk_items rest m ov ([], [])")
          (auto simp add: extend_state_def split: sum.splits)
      also have "\<dots> = extend_state acc
       (chunk_items (item # rest) m ov ([], []))"
        using Some Inr by simp
      finally show ?thesis .
    qed
  qed
qed

lemma chunk_items_append:
  "chunk_items (xs @ ys) m ov acc =
     (case chunk_items xs m ov acc of
        None \<Rightarrow> None
      | Some (Inl e) \<Rightarrow> Some (Inl e)
      | Some (Inr acc') \<Rightarrow> chunk_items ys m ov acc')"
  by (induction xs arbitrary: acc) (auto split: option.splits sum.splits)

text \<open>
  A run over \<open>pre @ item # post\<close>, when the record \<open>item\<close> by itself adds the texts
  \<open>new_cs\<close> and the references \<open>new_rs\<close> to whatever lists it starts from: the run is
  the run over \<open>pre\<close>, then these lists, then the run over \<open>post\<close>, and it raises or
  fails to return exactly where the runs over \<open>pre\<close> and \<open>post\<close> do.
\<close>

lemma chunk_documents_split:
  assumes "\<And>acc. chunk_item item m ov acc = Some (Inr (fst acc @ new_cs, snd acc @ new_rs))"
  shows "chunk_documents (pre @ item # post) m ov =
     (case chunk_documents pre m ov of
        None \<Rightarrow> None
      | Some (Inl e) \<Rightarrow> Some (Inl e)
      | Some (Inr (cs1, rs1)) \<Rightarrow>
          (case chunk_documents post m ov of
             None \<Rightarrow> None
           | Some (Inl e) \<Rightarrow> Some (Inl e)
           | Some (Inr (cs2, rs2)) \<Rightarrow> Some (Inr (cs1 @ new_cs @ cs2, rs1 @ new_rs @ rs2))))"
proof (cases "chunk_items pre m ov ([], [])")
  case None
  then show ?thesis
    by (simp add: chunk_documents_def chunk_items_append)
next
  case (Some r)
  show ?thesis
  proof (cases r)
    case (Inl e)
    with Some show ?thesis
      by (simp add: chunk_documents_def chunk_items_append)
  next
    case (Inr a1)
    have "chunk_documents (pre @ item # post) m ov =
            chunk_items post m ov (fst a1 @ new_cs, snd a1 @ new_rs)"
      using Some Inr by (simp add: chunk_documents_def chunk_items_append assms)
    also have "\<dots> = extend_state (fst a1 @ new_cs, snd a1 @ new_rs)
       (chunk_items post m ov ([], []))"
      using chunk_items_acc [of post m ov "(fst a1 @ new_cs, snd a1 @ new_rs)"] by simp
    finally show ?thesis
      using Some Inr
      by (cases a1; cases "chunk_items post m ov ([], [])")
        (auto simp add: chunk_documents_def extend_state_def split: sum.splits)
  qed
qed

lemma chunk_documents_total_nonzero:
  assumes "m \<noteq> 0" and "ov < m"
  shows "\<exists>cs rs. chunk_documents docs m ov = Some (Inr (cs, rs))"
proof -
  have "\<exists>acc'. chunk_items docs m ov acc = Some (Inr acc')" for acc
    by (induction docs arbitrary: acc) (simp_all add: chunk_item_total_nonzero [OF assms])
  then show ?thesis
    by (simp add: chunk_documents_def)
qed

section \<open>Batches and rows of the embedder\<close>

lemma py_slice_window:
  assumes "0 \<le> p" and "0 < bs"
  shows "py_slice xs p (p + bs) = take (nat bs) (drop (nat p) xs)"
proof (cases "nat (p + bs) \<le> length xs")
  case True
  then have "nat (p + bs) - nat p = nat bs" using assms by linarith
  with True assms show ?thesis
    by (simp add: py_slice_def slice_bound_def Let_def min_def)
next
  case False
  then have "length (drop (nat p) xs) \<le> nat bs" using assms by simp
  then have "take (nat bs) (drop (nat p) xs) = drop (nat p) xs" by simp
  with False assms show ?thesis
    by (simp add: py_slice_def slice_bound_def Let_def min_def)
qed

lemma concat_slices:
  assumes "n = int (length xs)" and "0 < bs" and "0 \<le> p"
  shows "concat (map (\<lambda>i. py_slice xs i (i + bs)) (py_range p n bs)) = drop (nat p) xs"
  using assms
proof (induction p n bs rule: py_range.induct)
  case (1 start stop step)
  show ?case
  proof (cases "start < stop")
    case True
    have r: "py_range start stop step = start # py_range (start + step) stop step"
      using True "1.prems" by (subst py_range.simps) simp
    have ih: "concat (map (\<lambda>i. py_slice xs i (i + step)) (py_range (start + step) stop step))
                = drop (nat (start + step)) xs"
      using True "1.prems" by (intro "1.IH"(1)) simp_all
    have "nat (start + step) = nat step + nat start" using "1.prems" by linarith
    then have d: "drop (nat (start + step)) xs = drop (nat step) (drop (nat start) xs)"
      by simp
    have w: "py_slice xs start (start + step) = take (nat step) (drop (nat start) xs)"
      using "1.prems" by (intro py_slice_window) simp_all
    have "concat (map (\<lambda>i. py_slice xs i (i + step)) (py_range start stop step))
            = py_slice xs start (start + step)
              @ concat (map (\<lambda>i. py_slice xs i (i + step)) (py_range (start + step) stop step))"
      by (simp add: r)
    also have "\<dots> = take (nat step) (drop (nat start) xs) @ drop (nat step) (drop (nat start) xs)"
      by (simp only: ih w d)
    also have "\<dots> = drop (nat start) xs"
      by (rule append_take_drop_id)
    finally show ?thesis .
  next
    case False
    then show ?thesis
      using "1.prems" by (simp add: py_range_empty)
  qed
qed

lemma concat_batches: "0 < bs \<Longrightarrow> concat (batches xs bs) = xs"
  using concat_slices [of "int (length xs)" xs bs 0] by (simp add: batches_def)

lemma length_concat_rows:
  "\<forall>b\<in>set bs. length (g b) = length b \<Longrightarrow> length (concat (map g bs)) = length (concat bs)"
  by (induction bs) simp_all

lemma concat_uniform_nth:
  assumes "0 < n" and "\<forall>b\<in>set B. length b \<le> n" and "\<forall>b\<in>set (butlast B). length b = n"
    and "i < length (concat B)"
  shows "i div n < length B \<and> i mod n < length (B ! (i div n)) \<and>
         concat B ! i = B ! (i div n) ! (i mod n)"
  using assms(2-)
proof (induction B arbitrary: i)
  case Nil
  then show ?case by simp
next
  case (Cons b B)
  show ?case
  proof (cases "i < length b")
    case True
    then have "i < n" using Cons.prems(1) by auto
    with True show ?thesis by (simp add: nth_append)
  next
    case False
    with Cons.prems(3) have rest: "i - length b < length (concat B)" by simp
    then have "B \<noteq> []" by auto
    with Cons.prems(2) have lb: "length b = n" by simp
    have b1: "\<forall>b\<in>set B. length b \<le> n" using Cons.prems(1) by simp
    have b2: "\<forall>b\<in>set (butlast B). length b = n" using Cons.prems(2) \<open>B \<noteq> []\<close> by simp
    from False lb have ge: "n \<le> i" by simp
    have d: "i div n = Suc ((i - n) div n)" using ge assms(1) by (simp add: le_div_geq)
    have m: "i mod n = (i - n) mod n" using ge by (simp add: le_mod_geq)
    from Cons.IH [OF b1 b2 rest] lb False show ?thesis
      by (simp add: d m nth_append)
  qed
qed

lemma slices_block_lengths:
  assumes "n = int (length xs)" and "0 < bs" and "0 \<le> p"
  shows "(\<forall>b\<in>set (map (\<lambda>i. py_slice xs i (i + bs)) (py_range p n bs)). length b \<le> nat bs) \<and>
         (\<forall>b\<in>set (butlast (map (\<lambda>i. py_slice xs i (i + bs)) (py_range p n bs))). length b = nat bs)"
  using assms
proof (induction p n bs rule: py_range.induct)
  case (1 start stop step)
  show ?case
  proof (cases "start < stop")
    case True
    have r: "py_range start stop step = start # py_range (start + step) stop step"
      using True "1.prems" by (subst py_range.simps) simp
    have w: "py_slice xs start (start + step) = take (nat step) (drop (nat start) xs)"
      using "1.prems" by (intro py_slice_window) simp_all
    have ih: "(\<forall>b\<in>set (map (\<lambda>i. py_slice xs i (i + step)) (py_range (start + step) stop step)).
                 length b \<le> nat step) \<and>
              (\<forall>b\<in>set (butlast (map (\<lambda>i. py_slice xs i (i + step)) (py_range (start + step) stop step))).
                 length b = nat step)"
      using True "1.prems" by (intro "1.IH"(1)) simp_all
    have full: "length (py_slice xs start (start + step)) = nat step"
      if "py_range (start + step) stop step \<noteq> []"
    proof -
      have "start + step < stop"
        using that "1.prems" py_range_empty [of "start + step" stop step] by fastforce
      then have "nat step \<le> length xs - nat start" using "1.prems" by linarith
      then show ?thesis by (simp add: w)
    qed
    show ?thesis
      using ih full by (simp add: r w)
  next
    case False
    then show ?thesis
      using "1.prems" by (simp add: py_range_empty)
  qed
qed

lemma batches_block_lengths:
  "0 < bs \<Longrightarrow> \<forall>b\<in>set (batches xs bs). length b \<le> nat bs"
  "0 < bs \<Longrightarrow> \<forall>b\<in>set (butlast (batches xs bs)). length b = nat bs"
  using slices_block_lengths [of "int (length xs)" xs bs 0] by (simp_all add: batches_def)

lemma encode_value:
  assumes "encode model texts 8 = Inr embeddings"
  shows "embeddings = concat (map (\<lambda>batch_texts. model (map passage batch_texts)) (batches texts 8))"
  using assms by (simp add: encode_def Let_def split: if_splits)

lemma encode_positions:
  assumes rows: "\<forall>b. length (model b) = length b"
    and enc: "encode model texts 8 = Inr embeddings"
    and i: "i < length texts"
  shows "i div 8 < length (batches texts 8) \<and> i mod 8 < length (batches texts 8 ! (i div 8)) \<and>
         batches texts 8 ! (i div 8) ! (i mod 8) = texts ! i \<and>
         embeddings ! i = model (map passage (batches texts 8 ! (i div 8))) ! (i mod 8)"
proof -
  let ?g = "\<lambda>batch_texts. model (map passage batch_texts)"
  let ?B = "batches texts 8"
  have e: "embeddings = concat (map ?g ?B)" by (rule encode_value [OF enc])
  have c: "concat ?B = texts" by (rule concat_batches) simp
  have l1: "\<forall>b\<in>set ?B. length b \<le> 8" using batches_block_lengths(1) [of 8 texts] by simp
  have l2: "\<forall>b\<in>set (butlast ?B). length b = 8" using batches_block_lengths(2) [of 8 texts] by simp
  have g1: "\<forall>b\<in>set (map ?g ?B). length b \<le> 8" using l1 rows by simp
  have g2: "\<forall>b\<in>set (butlast (map ?g ?B)). length b = 8" using l2 rows by (simp add: map_butlast [symmetric])
  have i1: "i < length (concat ?B)" using i by (simp add: c)
  have "length (concat (map ?g ?B)) = length (concat ?B)"
    using rows by (intro length_concat_rows) simp
  then have i2: "i < length (concat (map ?g ?B))" using i1 by simp
  have p1: "i div 8 < length ?B \<and> i mod 8 < length (?B ! (i div 8)) \<and>
            concat ?B ! i = ?B ! (i div 8) ! (i mod 8)"
    by (rule concat_uniform_nth [OF _ l1 l2 i1]) simp
  have p2: "concat (map ?g ?B) ! i = map ?g ?B ! (i div 8) ! (i mod 8)"
    using concat_uniform_nth [OF _ g1 g2 i2] by simp
  from p1 p2 show ?thesis
    by (simp add: e c)
qed

lemma encode_nonempty:
  assumes "texts \<noteq> []"
  shows "encode model texts 8 = Inr (concat (map (\<lambda>batch_texts. model (map passage batch_texts)) (batches texts 8)))"
proof -
  have "py_range 0 (int (length texts)) 8 \<noteq> []"
    using assms by (intro py_range_nonempty) simp_all
  then show ?thesis
    by (simp add: encode_def batches_def)
qed

section \<open>Short and empty records\<close>

text \<open>
  Claim C7, as the code has it. Let a record of \<open>legal_data\<close> have at most
  \<open>max_chunk_size\<close> words. The run over the whole list is then the run over the records
  before it, followed by exactly one chunk and one reference for this record (its text as it
  is and its reference with nothing appended), followed by the run over the records after
  it. The run returns, raises or never returns as the runs over the other records do.
\<close>

theorem short_document_one_chunk:
  assumes "int (length (py_split (text_of item))) \<le> max_chunk_size"
  shows "chunk_documents (pre @ item # post) max_chunk_size overlap =
     (case chunk_documents pre max_chunk_size overlap of
        None \<Rightarrow> None
      | Some (Inl e) \<Rightarrow> Some (Inl e)
      | Some (Inr (cs1, rs1)) \<Rightarrow>
          (case chunk_documents post max_chunk_size overlap of
             None \<Rightarrow> None
           | Some (Inl e) \<Rightarrow> Some (Inl e)
           | Some (Inr (cs2, rs2)) \<Rightarrow>
               Some (Inr (cs1 @ [text_of item] @ cs2, rs1 @ [reference item] @ rs2))))"
  using assms by (intro chunk_documents_split) (simp add: chunk_item_def)

theorem short_document_one_chunk_witness:
  "int (length (py_split (text_of \<lparr>text_of = ustr ''a b c d e'', reference = ustr ''Art.1''\<rparr>))) \<le> 10
   \<and> chunk_documents
        [\<lparr>text_of = ustr ''h'', reference = ustr ''Art.0''\<rparr>,
         \<lparr>text_of = ustr ''a b c d e'', reference = ustr ''Art.1''\<rparr>,
         \<lparr>text_of = ustr ''x  y'', reference = ustr ''Art.2''\<rparr>] 10 50 =
       Some (Inr ([ustr ''h'', ustr ''a b c d e'', ustr ''x  y''],
                  [ustr ''Art.0'', ustr ''Art.1'', ustr ''Art.2'']))"
proof -
  have w0: "py_split (ustr ''h'') = [[104]]"
    by (simp add: py_split_def ustr_def py_isspace_def)
  have w1: "py_split (ustr ''a b c d e'') = [[97], [98], [99], [100], [101]]"
    by (simp add: py_split_def ustr_def py_isspace_def)
  have w2: "py_split (ustr ''x  y'') = [[120], [121]]"
    by (simp add: py_split_def ustr_def py_isspace_def)
  have pre: "chunk_documents [\<lparr>text_of = ustr ''h'', reference = ustr ''Art.0''\<rparr>] 10 50 =
      Some (Inr ([ustr ''h''], [ustr ''Art.0'']))"
    by (simp add: chunk_documents_def chunk_item_def w0)
  have post: "chunk_documents [\<lparr>text_of = ustr ''x  y'', reference = ustr ''Art.2''\<rparr>] 10 50 =
      Some (Inr ([ustr ''x  y''], [ustr ''Art.2'']))"
    by (simp add: chunk_documents_def chunk_item_def w2)
  show ?thesis
    using short_document_one_chunk
      [of "\<lparr>text_of = ustr ''a b c d e'', reference = ustr ''Art.1''\<rparr>" 10
          "[\<lparr>text_of = ustr ''h'', reference = ustr ''Art.0''\<rparr>]"
          "[\<lparr>text_of = ustr ''x  y'', reference = ustr ''Art.2''\<rparr>]" 50]
    by (simp add: w1 pre post)
qed

text \<open>
  A short record followed by a longer one, with \<open>max_chunk_size = 2\<close> and \<open>overlap = 2\<close>:
  the run never returns, so no chunk comes out for the short record.
\<close>

theorem short_document_counterexample:
  "int (length (py_split (ustr ''a''))) \<le> 2
   \<and> chunk_documents [\<lparr>text_of = ustr ''a'', reference = ustr ''Art.1''\<rparr>,
                       \<lparr>text_of = ustr ''p q r'', reference = ustr ''Art.2''\<rparr>] 2 2 = None"
proof -
  have short: "py_split (ustr ''a'') = [[97]]"
    by (simp add: py_split_def ustr_def py_isspace_def)
  have long: "py_split (ustr ''p q r'') = [[112], [113], [114]]"
    by (simp add: py_split_def ustr_def py_isspace_def)
  show ?thesis
    using chunk_items_no_step
      [of 2 2 "[\<lparr>text_of = ustr ''a'', reference = ustr ''Art.1''\<rparr>,
                \<lparr>text_of = ustr ''p q r'', reference = ustr ''Art.2''\<rparr>]" "([], [])"]
    by (simp add: chunk_documents_def short long)
qed

text \<open>
  Claim C5, as the code has it. An empty text has zero words, so for a non-negative
  \<open>max_chunk_size\<close> it takes the branch for short texts: the record adds one chunk, the
  empty string, with its own reference. Only a negative \<open>max_chunk_size\<close> sends it to the
  window loop, which then adds nothing. The record raises nothing: the run over a list that
  holds it raises or never returns only as the runs over the other records do, and the run
  over this record alone always returns.
\<close>

theorem empty_text_one_chunk:
  assumes "text_of item = []"
  shows "chunk_documents (pre @ item # post) max_chunk_size overlap =
     (case chunk_documents pre max_chunk_size overlap of
        None \<Rightarrow> None
      | Some (Inl e) \<Rightarrow> Some (Inl e)
      | Some (Inr (cs1, rs1)) \<Rightarrow>
          (case chunk_documents post max_chunk_size overlap of
             None \<Rightarrow> None
           | Some (Inl e) \<Rightarrow> Some (Inl e)
           | Some (Inr (cs2, rs2)) \<Rightarrow>
               Some (Inr (if 0 \<le> max_chunk_size
                          then (cs1 @ [[]] @ cs2, rs1 @ [reference item] @ rs2)
                          else (cs1 @ cs2, rs1 @ rs2)))))
   \<and> chunk_documents [item] max_chunk_size overlap =
       Some (Inr (if 0 \<le> max_chunk_size then ([[]], [reference item]) else ([], [])))"
proof (cases "0 \<le> max_chunk_size")
  case True
  have one: "chunk_item item max_chunk_size overlap acc =
      Some (Inr (fst acc @ [[]], snd acc @ [reference item]))" for acc
    using assms True by (simp add: chunk_item_cases py_split_def)
  have whole: "chunk_documents (pre @ item # post) max_chunk_size overlap =
     (case chunk_documents pre max_chunk_size overlap of
        None \<Rightarrow> None
      | Some (Inl e) \<Rightarrow> Some (Inl e)
      | Some (Inr (cs1, rs1)) \<Rightarrow>
          (case chunk_documents post max_chunk_size overlap of
             None \<Rightarrow> None
           | Some (Inl e) \<Rightarrow> Some (Inl e)
           | Some (Inr (cs2, rs2)) \<Rightarrow>
               Some (Inr (cs1 @ [[]] @ cs2, rs1 @ [reference item] @ rs2))))"
    by (rule chunk_documents_split [OF one])
  have alone: "chunk_documents [item] max_chunk_size overlap = Some (Inr ([[]], [reference item]))"
    by (simp add: chunk_documents_def one)
  show ?thesis
    unfolding if_P [OF True] by (rule conjI [OF whole alone])
next
  case False
  have one: "chunk_item item max_chunk_size overlap acc = Some (Inr (fst acc @ [], snd acc @ []))" for acc
    using assms False by (simp add: chunk_item_cases py_split_def)
  have whole: "chunk_documents (pre @ item # post) max_chunk_size overlap =
     (case chunk_documents pre max_chunk_size overlap of
        None \<Rightarrow> None
      | Some (Inl e) \<Rightarrow> Some (Inl e)
      | Some (Inr (cs1, rs1)) \<Rightarrow>
          (case chunk_documents post max_chunk_size overlap of
             None \<Rightarrow> None
           | Some (Inl e) \<Rightarrow> Some (Inl e)
           | Some (Inr (cs2, rs2)) \<Rightarrow> Some (Inr (cs1 @ cs2, rs1 @ rs2))))"
    using chunk_documents_split [OF one, of pre post] unfolding append_Nil .
  have alone: "chunk_documents [item] max_chunk_size overlap = Some (Inr ([], []))"
    by (simp add: chunk_documents_def one)
  show ?thesis
    unfolding if_not_P [OF False] by (rule conjI [OF whole alone])
qed

theorem empty_text_one_chunk_witness:
  "text_of \<lparr>text_of = ustr '''', reference = ustr ''Art.7''\<rparr> = []
   \<and> chunk_documents
        [\<lparr>text_of = ustr ''h'', reference = ustr ''Art.0''\<rparr>,
         \<lparr>text_of = ustr '''', reference = ustr ''Art.7''\<rparr>,
         \<lparr>text_of = ustr ''x  y'', reference = ustr ''Art.2''\<rparr>] 256 50 =
       Some (Inr ([ustr ''h'', [], ustr ''x  y''], [ustr ''Art.0'', ustr ''Art.7'', ustr ''Art.2'']))
   \<and> chunk_documents [\<lparr>text_of = ustr '''', reference = ustr ''Art.7''\<rparr>] 256 50 =
       Some (Inr ([[]], [ustr ''Art.7'']))"
proof -
  have w0: "py_split (ustr ''h'') = [[104]]"
    by (simp add: py_split_def ustr_def py_isspace_def)
  have w2: "py_split (ustr ''x  y'') = [[120], [121]]"
    by (simp add: py_split_def ustr_def py_isspace_def)
  have pre: "chunk_documents [\<lparr>text_of = ustr ''h'', reference = ustr ''Art.0''\<rparr>] 256 50 =
      Some (Inr ([ustr ''h''], [ustr ''Art.0'']))"
    by (simp add: chunk_documents_def chunk_item_def w0)
  have post: "chunk_documents [\<lparr>text_of = ustr ''x  y'', reference = ustr ''Art.2''\<rparr>] 256 50 =
      Some (Inr ([ustr ''x  y''], [ustr ''Art.2'']))"
    by (simp add: chunk_documents_def chunk_item_def w2)
  have e: "ustr '''' = []" by (simp add: ustr_def)
  show ?thesis
    using empty_text_one_chunk
      [of "\<lparr>text_of = ustr '''', reference = ustr ''Art.7''\<rparr>"
          "[\<lparr>text_of = ustr ''h'', reference = ustr ''Art.0''\<rparr>]"
          "[\<lparr>text_of = ustr ''x  y'', reference = ustr ''Art.2''\<rparr>]" 256 50]
    by (simp add: pre post e)
qed

text \<open>
  With the default sizes, a record with the empty text gives one chunk, not none.
\<close>

theorem empty_text_counterexample:
  "chunk_documents [\<lparr>text_of = ustr '''', reference = ustr ''Art.7''\<rparr>] 256 50 =
     Some (Inr ([ustr ''''], [ustr ''Art.7'']))
   \<and> chunk_documents [\<lparr>text_of = ustr '''', reference = ustr ''Art.7''\<rparr>] 256 50 \<noteq> Some (Inr ([], []))"
  by (simp add: chunk_documents_def chunk_item_cases py_split_def ustr_def)

section \<open>Records longer than one window\<close>

text \<open>
  Claim C3, as the code has it. For the one record with text \<open>a b c d e\<close> and reference
  \<open>Art.1\<close>, with \<open>max_chunk_size = 3\<close> and \<open>overlap = 1\<close>, the windows start at 0, 2 and
  4: the run returns the three chunks \<open>a b c\<close>, \<open>c d e\<close> and \<open>e\<close>. The fragment
  numbers are \<open>0 div 3 + 1\<close>, \<open>2 div 3 + 1\<close> and \<open>4 div 3 + 1\<close>, that is 1, 1 and 2, and the
  label before the number is the Cyrillic word of the source.
\<close>

theorem example_art1_three_chunks:
  "chunk_documents [\<lparr>text_of = ustr ''a b c d e'', reference = ustr ''Art.1''\<rparr>] 3 1 =
     Some (Inr ([ustr ''a b c'', ustr ''c d e'', ustr ''e''],
                [ustr ''Art.1 - '' @ [1060, 1088, 1072, 1075, 1084, 1077, 1085, 1090] @ ustr '' 1'',
                 ustr ''Art.1 - '' @ [1060, 1088, 1072, 1075, 1084, 1077, 1085, 1090] @ ustr '' 1'',
                 ustr ''Art.1 - '' @ [1060, 1088, 1072, 1075, 1084, 1077, 1085, 1090] @ ustr '' 2'']))"
proof -
  have words: "py_split (ustr ''a b c d e'') = [[97], [98], [99], [100], [101]]"
    by (simp add: py_split_def ustr_def py_isspace_def)
  have starts: "py_range 0 5 2 = [0, 2, 4]"
    by (simp add: py_range.simps)
  show ?thesis
    by (simp add: chunk_documents_def chunk_item_cases words starts window_text_def
        window_ref_def py_slice_def slice_bound_def py_str_int_def digits.simps fragment_label_def)
      (simp add: ustr_def)
qed

text \<open>The result is not the two chunks and the two references of the spec's example.\<close>

theorem example_art1_counterexample:
  "chunk_documents [\<lparr>text_of = ustr ''a b c d e'', reference = ustr ''Art.1''\<rparr>] 3 1 \<noteq>
     Some (Inr ([ustr ''a b c'', ustr ''c d e''],
                [ustr ''Art.1 - Fragment 1'', ustr ''Art.1 - Fragment 2'']))"
proof -
  have words: "py_split (ustr ''a b c d e'') = [[97], [98], [99], [100], [101]]"
    by (simp add: py_split_def ustr_def py_isspace_def)
  have starts: "py_range 0 5 2 = [0, 2, 4]"
    by (simp add: py_range.simps)
  show ?thesis
    by (simp add: chunk_documents_def chunk_item_cases Let_def words starts)
qed

text \<open>
  Claim C2, as the code has it. The loop runs while the window start is below the word
  count \<open>N\<close> and moves the start by \<open>max_chunk_size - overlap\<close>. So with
  \<open>0 \<le> overlap < max_chunk_size\<close> the run over a list returns, and a record of the list
  with \<open>N > max_chunk_size\<close> words adds exactly \<open>ceil (N / (max_chunk_size - overlap))\<close>
  chunks and as many references, between what the records before it and the records after
  it add; they are the chunks of the run over this record alone.
\<close>

theorem long_document_chunk_count:
  assumes "max_chunk_size < int (length (py_split (text_of item)))"
    and "0 \<le> overlap" and "overlap < max_chunk_size"
  shows "\<exists>cs1 rs1 new_chunks new_refs cs2 rs2.
           chunk_documents pre max_chunk_size overlap = Some (Inr (cs1, rs1))
         \<and> chunk_documents post max_chunk_size overlap = Some (Inr (cs2, rs2))
         \<and> chunk_documents [item] max_chunk_size overlap = Some (Inr (new_chunks, new_refs))
         \<and> chunk_documents (pre @ item # post) max_chunk_size overlap =
             Some (Inr (cs1 @ new_chunks @ cs2, rs1 @ new_refs @ rs2))
         \<and> int (length new_chunks) =
             \<lceil>real (length (py_split (text_of item))) / real_of_int (max_chunk_size - overlap)\<rceil>
         \<and> length new_refs = length new_chunks"
proof -
  let ?words = "py_split (text_of item)"
  let ?starts = "py_range 0 (int (length ?words)) (max_chunk_size - overlap)"
  let ?new_cs = "map (window_text ?words max_chunk_size) ?starts"
  let ?new_rs = "map (window_ref (reference item) max_chunk_size) ?starts"
  have nz: "max_chunk_size \<noteq> 0" using assms by simp
  have "?words \<noteq> []" using assms by auto
  with assms have one: "chunk_item item max_chunk_size overlap acc =
      Some (Inr (fst acc @ ?new_cs, snd acc @ ?new_rs))" for acc
    by (simp add: chunk_item_cases Let_def)
  obtain cs1 rs1 where pre: "chunk_documents pre max_chunk_size overlap = Some (Inr (cs1, rs1))"
    using chunk_documents_total_nonzero [OF nz assms(3)] by blast
  obtain cs2 rs2 where post: "chunk_documents post max_chunk_size overlap = Some (Inr (cs2, rs2))"
    using chunk_documents_total_nonzero [OF nz assms(3)] by blast
  have alone: "chunk_documents [item] max_chunk_size overlap = Some (Inr (?new_cs, ?new_rs))"
    by (simp add: chunk_documents_def one)
  have whole: "chunk_documents (pre @ item # post) max_chunk_size overlap =
      Some (Inr (cs1 @ ?new_cs @ cs2, rs1 @ ?new_rs @ rs2))"
    using chunk_documents_split [OF one, of pre post] by (simp add: pre post)
  have count: "int (length ?new_cs) =
      \<lceil>real (length ?words) / real_of_int (max_chunk_size - overlap)\<rceil>"
    using length_py_range_ceiling [of "max_chunk_size - overlap" "int (length ?words)"] assms
    by simp
  have same: "length ?new_rs = length ?new_cs" by simp
  from pre post alone whole count same show ?thesis by blast
qed

theorem long_document_chunk_count_witness:
  "3 < int (length (py_split (text_of \<lparr>text_of = ustr ''a b c d e'', reference = ustr ''Art.1''\<rparr>)))
   \<and> (0::int) \<le> 1 \<and> (1::int) < 3
   \<and> (\<exists>new_chunks new_refs cs2 rs2.
         chunk_documents [\<lparr>text_of = ustr ''x  y'', reference = ustr ''Art.2''\<rparr>] 3 1 =
           Some (Inr (cs2, rs2))
       \<and> chunk_documents [\<lparr>text_of = ustr ''a b c d e'', reference = ustr ''Art.1''\<rparr>] 3 1 =
           Some (Inr (new_chunks, new_refs))
       \<and> chunk_documents
           [\<lparr>text_of = ustr ''h'', reference = ustr ''Art.0''\<rparr>,
            \<lparr>text_of = ustr ''a b c d e'', reference = ustr ''Art.1''\<rparr>,
            \<lparr>text_of = ustr ''x  y'', reference = ustr ''Art.2''\<rparr>] 3 1 =
           Some (Inr (ustr ''h'' # new_chunks @ cs2, ustr ''Art.0'' # new_refs @ rs2))
       \<and> int (length new_chunks) = 3 \<and> length new_refs = length new_chunks)"
proof -
  have w0: "py_split (ustr ''h'') = [[104]]"
    by (simp add: py_split_def ustr_def py_isspace_def)
  have words: "py_split (ustr ''a b c d e'') = [[97], [98], [99], [100], [101]]"
    by (simp add: py_split_def ustr_def py_isspace_def)
  have pre: "chunk_documents [\<lparr>text_of = ustr ''h'', reference = ustr ''Art.0''\<rparr>] 3 1 =
      Some (Inr ([ustr ''h''], [ustr ''Art.0'']))"
    by (simp add: chunk_documents_def chunk_item_def w0)
  have c: "\<lceil>(5::real) / 2\<rceil> = 3" by linarith
  show ?thesis
    using long_document_chunk_count
      [of 3 "\<lparr>text_of = ustr ''a b c d e'', reference = ustr ''Art.1''\<rparr>" 1
          "[\<lparr>text_of = ustr ''h'', reference = ustr ''Art.0''\<rparr>]"
          "[\<lparr>text_of = ustr ''x  y'', reference = ustr ''Art.2''\<rparr>]"]
    by (simp add: words c pre)
qed

text \<open>
  Four words with \<open>max_chunk_size = 2\<close> and \<open>overlap = 1\<close> give four chunks, where
  \<open>ceil ((N - overlap) / (max_chunk_size - overlap))\<close> is three.
\<close>

theorem chunk_count_counterexample:
  "length (py_split (ustr ''w x y z'')) = 4
   \<and> chunk_documents [\<lparr>text_of = ustr ''w x y z'', reference = ustr ''Art.2''\<rparr>] 2 1 =
     Some (Inr ([ustr ''w x'', ustr ''x y'', ustr ''y z'', ustr ''z''],
                [ustr ''Art.2'' @ fragment_label @ ustr ''1'', ustr ''Art.2'' @ fragment_label @ ustr ''1'',
                 ustr ''Art.2'' @ fragment_label @ ustr ''2'', ustr ''Art.2'' @ fragment_label @ ustr ''2'']))
   \<and> \<lceil>(4 - 1) / (2 - 1) :: real\<rceil> = 3"
proof -
  have words: "py_split (ustr ''w x y z'') = [[119], [120], [121], [122]]"
    by (simp add: py_split_def ustr_def py_isspace_def)
  have starts: "py_range 0 4 1 = [0, 1, 2, 3]"
    by (simp add: py_range.simps)
  show ?thesis
    by (simp add: chunk_documents_def chunk_item_cases words starts window_text_def
        window_ref_def py_slice_def slice_bound_def py_str_int_def digits.simps)
      (simp add: ustr_def)
qed

text \<open>
  Claim C6, as the code has it. With \<open>max_chunk_size \<noteq> 0\<close> and
  \<open>overlap < max_chunk_size\<close> the run over a list returns, and a record of the list with
  more words than \<open>max_chunk_size\<close> adds, between what the records before and after it
  add, one chunk and one reference per window start \<open>p\<close> in
  \<open>range(0, N, max_chunk_size - overlap)\<close>. The reference is the record's reference, then
  \<open>" - "\<close>, the Cyrillic word of the source (code points 1060, 1088, 1072, 1075, 1084, 1077,
  1085, 1090), a space, and the decimal text of \<open>p div max_chunk_size + 1\<close>.
\<close>

theorem fragment_reference_form:
  assumes "max_chunk_size < int (length (py_split (text_of item)))"
    and "max_chunk_size \<noteq> 0" and "overlap < max_chunk_size"
  shows "\<exists>cs1 rs1 cs2 rs2.
           chunk_documents pre max_chunk_size overlap = Some (Inr (cs1, rs1))
         \<and> chunk_documents post max_chunk_size overlap = Some (Inr (cs2, rs2))
         \<and> chunk_documents (pre @ item # post) max_chunk_size overlap =
             Some (Inr
               (cs1 @ map (window_text (py_split (text_of item)) max_chunk_size)
                        (py_range 0 (int (length (py_split (text_of item)))) (max_chunk_size - overlap))
                    @ cs2,
                rs1 @ map (\<lambda>p. reference item @ ustr '' - ''
                                @ [1060, 1088, 1072, 1075, 1084, 1077, 1085, 1090] @ ustr '' ''
                                @ py_str_int (p div max_chunk_size + 1))
                        (py_range 0 (int (length (py_split (text_of item)))) (max_chunk_size - overlap))
                    @ rs2))"
proof -
  let ?words = "py_split (text_of item)"
  let ?starts = "py_range 0 (int (length ?words)) (max_chunk_size - overlap)"
  let ?new_cs = "map (window_text ?words max_chunk_size) ?starts"
  let ?new_rs = "map (\<lambda>p. reference item @ ustr '' - ''
                      @ [1060, 1088, 1072, 1075, 1084, 1077, 1085, 1090] @ ustr '' ''
                      @ py_str_int (p div max_chunk_size + 1)) ?starts"
  have ref: "window_ref (reference item) max_chunk_size =
               (\<lambda>p. reference item @ ustr '' - ''
                      @ [1060, 1088, 1072, 1075, 1084, 1077, 1085, 1090] @ ustr '' ''
                      @ py_str_int (p div max_chunk_size + 1))"
    by (rule ext) (simp add: window_ref_def fragment_label_def)
  have one: "chunk_item item max_chunk_size overlap acc =
      Some (Inr (fst acc @ ?new_cs, snd acc @ ?new_rs))" for acc
  proof (cases "?words = []")
    case True
    with assms show ?thesis
      by (simp add: chunk_item_cases py_range_zero_stop)
  next
    case False
    with assms show ?thesis
      by (simp add: chunk_item_cases Let_def ref)
  qed
  obtain cs1 rs1 where pre: "chunk_documents pre max_chunk_size overlap = Some (Inr (cs1, rs1))"
    using chunk_documents_total_nonzero [OF assms(2,3)] by blast
  obtain cs2 rs2 where post: "chunk_documents post max_chunk_size overlap = Some (Inr (cs2, rs2))"
    using chunk_documents_total_nonzero [OF assms(2,3)] by blast
  have whole: "chunk_documents (pre @ item # post) max_chunk_size overlap =
      Some (Inr (cs1 @ ?new_cs @ cs2, rs1 @ ?new_rs @ rs2))"
    using chunk_documents_split [OF one, of pre post] by (simp add: pre post)
  from pre post whole show ?thesis by blast
qed

theorem fragment_reference_form_witness:
  "2 < int (length (py_split (text_of \<lparr>text_of = ustr ''x y z'', reference = ustr ''R''\<rparr>)))
   \<and> (2::int) \<noteq> 0 \<and> (0::int) < 2
   \<and> chunk_documents
        [\<lparr>text_of = ustr ''h'', reference = ustr ''Art.0''\<rparr>,
         \<lparr>text_of = ustr ''x y z'', reference = ustr ''R''\<rparr>,
         \<lparr>text_of = ustr ''g'', reference = ustr ''Art.9''\<rparr>] 2 0 =
       Some (Inr ([ustr ''h'', ustr ''x y'', ustr ''z'', ustr ''g''],
                  [ustr ''Art.0'',
                   ustr ''R - '' @ [1060, 1088, 1072, 1075, 1084, 1077, 1085, 1090] @ ustr '' 1'',
                   ustr ''R - '' @ [1060, 1088, 1072, 1075, 1084, 1077, 1085, 1090] @ ustr '' 2'',
                   ustr ''Art.9'']))"
proof -
  have w0: "py_split (ustr ''h'') = [[104]]"
    by (simp add: py_split_def ustr_def py_isspace_def)
  have w9: "py_split (ustr ''g'') = [[103]]"
    by (simp add: py_split_def ustr_def py_isspace_def)
  have words: "py_split (ustr ''x y z'') = [[120], [121], [122]]"
    by (simp add: py_split_def ustr_def py_isspace_def)
  have starts: "py_range 0 3 2 = [0, 2]"
    by (simp add: py_range.simps)
  have pre: "chunk_documents [\<lparr>text_of = ustr ''h'', reference = ustr ''Art.0''\<rparr>] 2 0 =
      Some (Inr ([ustr ''h''], [ustr ''Art.0'']))"
    by (simp add: chunk_documents_def chunk_item_def w0)
  have post: "chunk_documents [\<lparr>text_of = ustr ''g'', reference = ustr ''Art.9''\<rparr>] 2 0 =
      Some (Inr ([ustr ''g''], [ustr ''Art.9'']))"
    by (simp add: chunk_documents_def chunk_item_def w9)
  show ?thesis
    using fragment_reference_form
      [of 2 "\<lparr>text_of = ustr ''x y z'', reference = ustr ''R''\<rparr>" 0
          "[\<lparr>text_of = ustr ''h'', reference = ustr ''Art.0''\<rparr>]"
          "[\<lparr>text_of = ustr ''g'', reference = ustr ''Art.9''\<rparr>]"]
    by (simp add: words starts pre post window_text_def py_slice_def slice_bound_def py_str_int_def
        digits.simps)
      (simp add: ustr_def)
qed

text \<open>
  The first reference of a split record does not read \<open>Fragment\<close>: its label is the
  Cyrillic word.
\<close>

theorem fragment_label_counterexample:
  "chunk_documents [\<lparr>text_of = ustr ''k l m'', reference = ustr ''Art.3''\<rparr>] 2 0 =
     Some (Inr ([ustr ''k l'', ustr ''m''],
                [ustr ''Art.3 - '' @ [1060, 1088, 1072, 1075, 1084, 1077, 1085, 1090] @ ustr '' 1'',
                 ustr ''Art.3 - '' @ [1060, 1088, 1072, 1075, 1084, 1077, 1085, 1090] @ ustr '' 2'']))
   \<and> ustr ''Art.3 - '' @ [1060, 1088, 1072, 1075, 1084, 1077, 1085, 1090] @ ustr '' 1''
       \<noteq> ustr ''Art.3 - Fragment 1''"
proof -
  have words: "py_split (ustr ''k l m'') = [[107], [108], [109]]"
    by (simp add: py_split_def ustr_def py_isspace_def)
  have starts: "py_range 0 3 2 = [0, 2]"
    by (simp add: py_range.simps)
  show ?thesis
    by (simp add: chunk_documents_def chunk_item_cases words starts window_text_def
        window_ref_def py_slice_def slice_bound_def py_str_int_def digits.simps fragment_label_def)
      (simp add: ustr_def)
qed

section \<open>Termination\<close>

text \<open>
  Claim C10. With \<open>max_chunk_size \<ge> 1\<close> and \<open>0 \<le> overlap < max_chunk_size\<close> every run of
  \<open>chunk_documents\<close> returns, and returns two lists rather than an error. The inner loop
  makes at most as many turns for a record as the record has words, so the number of chunks
  is at most the sum over the records of the word count (one for a record with no words).
\<close>

theorem chunk_documents_terminates:
  assumes "1 \<le> max_chunk_size" and "0 \<le> overlap" and "overlap < max_chunk_size"
  shows "\<exists>cs rs. chunk_documents legal_data max_chunk_size overlap = Some (Inr (cs, rs))
           \<and> int (length cs) \<le> (\<Sum>item\<leftarrow>legal_data. max 1 (int (length (py_split (text_of item)))))"
  using chunk_items_total [OF assms(1) assms(3), of legal_data "([], [])"]
  by (auto simp add: chunk_documents_def)

theorem chunk_documents_terminates_witness:
  "(1::int) \<le> 3 \<and> (0::int) \<le> 1 \<and> (1::int) < 3
   \<and> (\<exists>cs rs. chunk_documents [\<lparr>text_of = ustr ''a b c d e'', reference = ustr ''Art.1''\<rparr>] 3 1 =
                  Some (Inr (cs, rs)) \<and> int (length cs) \<le> 5)"
proof -
  have words: "py_split (ustr ''a b c d e'') = [[97], [98], [99], [100], [101]]"
    by (simp add: py_split_def ustr_def py_isspace_def)
  show ?thesis
    using chunk_documents_terminates
      [of 3 1 "[\<lparr>text_of = ustr ''a b c d e'', reference = ustr ''Art.1''\<rparr>]"]
    by (simp add: words)
qed

section \<open>An overlap that leaves no step\<close>

text \<open>
  Claim C4, as the code has it. \<open>chunk_documents\<close> does not compare \<open>overlap\<close> with
  \<open>max_chunk_size\<close> and raises nothing for \<open>1 \<le> max_chunk_size \<le> overlap\<close>: when every
  record has at most \<open>max_chunk_size\<close> words it returns each record whole, and when some
  record has more words it never returns.
\<close>

theorem no_step_is_not_rejected:
  assumes "1 \<le> max_chunk_size" and "max_chunk_size \<le> overlap"
  shows "chunk_documents legal_data max_chunk_size overlap =
           (if \<forall>item\<in>set legal_data. int (length (py_split (text_of item))) \<le> max_chunk_size
            then Some (Inr (map text_of legal_data, map reference legal_data))
            else None)"
  using chunk_items_no_step [OF assms, of legal_data "([], [])"]
  by (simp add: chunk_documents_def)

theorem no_step_is_not_rejected_witness:
  "(1::int) \<le> 3 \<and> (3::int) \<le> 3
   \<and> chunk_documents [\<lparr>text_of = ustr ''a b c d'', reference = ustr ''Art.1''\<rparr>] 3 3 = None"
proof -
  have words: "py_split (ustr ''a b c d'') = [[97], [98], [99], [100]]"
    by (simp add: py_split_def ustr_def py_isspace_def)
  show ?thesis
    using no_step_is_not_rejected
      [of 3 3 "[\<lparr>text_of = ustr ''a b c d'', reference = ustr ''Art.1''\<rparr>]"]
    by (simp add: words)
qed

text \<open>
  Two runs with \<open>overlap \<ge> max_chunk_size\<close>: one never returns, the other returns its
  record; neither is an error.
\<close>

theorem no_step_counterexample:
  "chunk_documents [\<lparr>text_of = ustr ''p q r s'', reference = ustr ''Art.4''\<rparr>] 2 2 = None
   \<and> chunk_documents [\<lparr>text_of = ustr ''p'', reference = ustr ''Art.4''\<rparr>] 2 7 =
       Some (Inr ([ustr ''p''], [ustr ''Art.4'']))"
proof -
  have long: "py_split (ustr ''p q r s'') = [[112], [113], [114], [115]]"
    by (simp add: py_split_def ustr_def py_isspace_def)
  have short: "py_split (ustr ''p'') = [[112]]"
    by (simp add: py_split_def ustr_def py_isspace_def)
  have "chunk_documents [\<lparr>text_of = ustr ''p q r s'', reference = ustr ''Art.4''\<rparr>] 2 2 = None"
    using chunk_items_no_step [of 2 2 "[\<lparr>text_of = ustr ''p q r s'', reference = ustr ''Art.4''\<rparr>]" "([], [])"]
    by (simp add: chunk_documents_def long)
  moreover have "chunk_documents [\<lparr>text_of = ustr ''p'', reference = ustr ''Art.4''\<rparr>] 2 7 =
       Some (Inr ([ustr ''p''], [ustr ''Art.4'']))"
    using chunk_items_no_step [of 2 7 "[\<lparr>text_of = ustr ''p'', reference = ustr ''Art.4''\<rparr>]" "([], [])"]
    by (simp add: chunk_documents_def short)
  ultimately show ?thesis by simp
qed

section \<open>Chunks, references and index positions stay aligned\<close>

lemma chunk_documents_origins:
  assumes "chunk_documents legal_data m ov = Some (Inr (cs, rs))"
  shows "cs = map (origin_text legal_data m) (origins_from 0 legal_data m ov)"
    and "rs = map (origin_ref legal_data m) (origins_from 0 legal_data m ov)"
  using chunk_items_origins [of legal_data m ov "([], [])" "(cs, rs)" 0 legal_data] assms
  by (simp_all add: chunk_documents_def)

lemma origins_from_nonempty:
  assumes "1 \<le> m" and "ov < m" and "docs \<noteq> []"
  shows "origins_from k docs m ov \<noteq> []"
  using assms item_windows_nonempty [OF assms(1,2)] by (cases docs) simp_all

lemma create_index_parts:
  assumes "create_improved_faiss_index legal_data model m ov = Some (Inr (index, cs, rs))"
  shows "chunk_documents legal_data m ov = Some (Inr (cs, rs))" and "encode model cs 8 = Inr index"
  using assms
  by (auto simp add: create_improved_faiss_index_def index_add_def
      split: option.splits sum.splits prod.splits)

lemma create_index_returns:
  assumes "1 \<le> m" and "ov < m" and "legal_data \<noteq> []"
  shows "\<exists>index cs rs. create_improved_faiss_index legal_data model m ov = Some (Inr (index, cs, rs))"
proof -
  obtain acc where run: "chunk_documents legal_data m ov = Some (Inr acc)"
    using chunk_items_total [OF assms(1,2), of legal_data "([], [])"]
    by (auto simp add: chunk_documents_def)
  obtain cs rs where acc: "acc = (cs, rs)" by (cases acc)
  have "cs \<noteq> []"
    using chunk_documents_origins(1) [OF run [unfolded acc]] origins_from_nonempty [OF assms]
    by simp
  then show ?thesis
    by (simp add: create_improved_faiss_index_def run acc encode_nonempty)
qed

lemma art1_run:
  "chunk_documents [\<lparr>text_of = ustr ''a b c d e'', reference = ustr ''Art.1''\<rparr>] 3 1 =
     Some (Inr ([ustr ''a b c'', ustr ''c d e'', ustr ''e''],
                [ustr ''Art.1'' @ fragment_label @ ustr ''1'',
                 ustr ''Art.1'' @ fragment_label @ ustr ''1'',
                 ustr ''Art.1'' @ fragment_label @ ustr ''2'']))"
proof -
  have words: "py_split (ustr ''a b c d e'') = [[97], [98], [99], [100], [101]]"
    by (simp add: py_split_def ustr_def py_isspace_def)
  have starts: "py_range 0 5 2 = [0, 2, 4]"
    by (simp add: py_range.simps)
  show ?thesis
    by (simp add: chunk_documents_def chunk_item_cases words starts window_text_def
        window_ref_def py_slice_def slice_bound_def py_str_int_def digits.simps)
      (simp add: ustr_def)
qed

text \<open>
  Claim C1, as the code has it. Whenever \<open>chunk_documents\<close> returns, the chunk texts and
  the references are the images of one and the same list of origins (the position of the
  record in \<open>legal_data\<close>, and the window start or \<open>None\<close> for a record kept whole): the
  two lists have the same length and order, the \<open>i\<close>-th text and the \<open>i\<close>-th reference
  come from the same record and window, and the records appear in their input order. It does
  return for every \<open>max_chunk_size \<ge> 1\<close> and \<open>overlap < max_chunk_size\<close>. Whenever
  \<open>create_improved_faiss_index\<close> returns, its chunks and references are those of
  \<open>chunk_documents\<close>, and the index holds the rows of the batches of eight chunks, batch
  after batch, where the batches in order make up the chunks. With an embedder that gives
  one row per text of a batch, the index then holds as many vectors as there are chunks and
  position \<open>i\<close> holds row \<open>i mod 8\<close> of batch \<open>i div 8\<close>, whose text \<open>i mod 8\<close> is
  \<open>chunks[i]\<close>. It returns for every non-empty \<open>legal_data\<close> with such sizes.
\<close>

theorem chunks_references_index_aligned:
  "(\<forall>cs rs. chunk_documents legal_data max_chunk_size overlap = Some (Inr (cs, rs)) \<longrightarrow>
       cs = map (origin_text legal_data max_chunk_size) (origins_from 0 legal_data max_chunk_size overlap)
     \<and> rs = map (origin_ref legal_data max_chunk_size) (origins_from 0 legal_data max_chunk_size overlap)
     \<and> length cs = length rs
     \<and> (\<forall>og\<in>set (origins_from 0 legal_data max_chunk_size overlap). fst og < length legal_data)
     \<and> sorted (map fst (origins_from 0 legal_data max_chunk_size overlap)))
   \<and> (1 \<le> max_chunk_size \<and> overlap < max_chunk_size \<longrightarrow>
        (\<exists>cs rs. chunk_documents legal_data max_chunk_size overlap = Some (Inr (cs, rs))))
   \<and> (\<forall>index cs rs.
        create_improved_faiss_index legal_data model max_chunk_size overlap = Some (Inr (index, cs, rs)) \<longrightarrow>
          chunk_documents legal_data max_chunk_size overlap = Some (Inr (cs, rs))
        \<and> index = concat (map (\<lambda>batch_texts. model (map passage batch_texts)) (batches cs 8))
        \<and> concat (batches cs 8) = cs)
   \<and> (\<forall>index cs rs.
        (\<forall>b. length (model b) = length b) \<and>
        create_improved_faiss_index legal_data model max_chunk_size overlap = Some (Inr (index, cs, rs)) \<longrightarrow>
          length index = length cs
        \<and> (\<forall>i<length cs.
               i div 8 < length (batches cs 8) \<and> i mod 8 < length (batches cs 8 ! (i div 8)) \<and>
               batches cs 8 ! (i div 8) ! (i mod 8) = cs ! i \<and>
               index ! i = model (map passage (batches cs 8 ! (i div 8))) ! (i mod 8)))
   \<and> (1 \<le> max_chunk_size \<and> overlap < max_chunk_size \<and> legal_data \<noteq> [] \<longrightarrow>
        (\<exists>index cs rs.
           create_improved_faiss_index legal_data model max_chunk_size overlap = Some (Inr (index, cs, rs))))"
proof -
  have A: "\<forall>cs rs. chunk_documents legal_data max_chunk_size overlap = Some (Inr (cs, rs)) \<longrightarrow>
       cs = map (origin_text legal_data max_chunk_size) (origins_from 0 legal_data max_chunk_size overlap)
     \<and> rs = map (origin_ref legal_data max_chunk_size) (origins_from 0 legal_data max_chunk_size overlap)
     \<and> length cs = length rs
     \<and> (\<forall>og\<in>set (origins_from 0 legal_data max_chunk_size overlap). fst og < length legal_data)
     \<and> sorted (map fst (origins_from 0 legal_data max_chunk_size overlap))"
  proof (intro allI impI conjI)
    fix cs rs
    assume run: "chunk_documents legal_data max_chunk_size overlap = Some (Inr (cs, rs))"
    show c: "cs = map (origin_text legal_data max_chunk_size)
                    (origins_from 0 legal_data max_chunk_size overlap)"
      by (rule chunk_documents_origins(1) [OF run])
    show r: "rs = map (origin_ref legal_data max_chunk_size)
                    (origins_from 0 legal_data max_chunk_size overlap)"
      by (rule chunk_documents_origins(2) [OF run])
    show "length cs = length rs"
      by (simp add: c r)
    show "\<forall>og\<in>set (origins_from 0 legal_data max_chunk_size overlap). fst og < length legal_data"
      using origins_from_fst [of _ 0 legal_data max_chunk_size overlap] by auto
    show "sorted (map fst (origins_from 0 legal_data max_chunk_size overlap))"
      by (rule origins_from_sorted)
  qed
  have B: "1 \<le> max_chunk_size \<and> overlap < max_chunk_size \<longrightarrow>
        (\<exists>cs rs. chunk_documents legal_data max_chunk_size overlap = Some (Inr (cs, rs)))"
    using chunk_items_total [of max_chunk_size overlap legal_data "([], [])"]
    by (auto simp add: chunk_documents_def)
  have C: "\<forall>index cs rs.
        create_improved_faiss_index legal_data model max_chunk_size overlap = Some (Inr (index, cs, rs)) \<longrightarrow>
          chunk_documents legal_data max_chunk_size overlap = Some (Inr (cs, rs))
        \<and> index = concat (map (\<lambda>batch_texts. model (map passage batch_texts)) (batches cs 8))
        \<and> concat (batches cs 8) = cs"
  proof (intro allI impI)
    fix index :: "'a list" and cs rs
    assume cr: "create_improved_faiss_index legal_data model max_chunk_size overlap =
        Some (Inr (index, cs, rs))"
    have enc: "encode model cs 8 = Inr index"
      by (rule create_index_parts(2) [OF cr])
    have "concat (batches cs 8) = cs"
      by (rule concat_batches) simp
    then show "chunk_documents legal_data max_chunk_size overlap = Some (Inr (cs, rs))
        \<and> index = concat (map (\<lambda>batch_texts. model (map passage batch_texts)) (batches cs 8))
        \<and> concat (batches cs 8) = cs"
      using create_index_parts(1) [OF cr] encode_value [OF enc] by simp
  qed
  have P: "\<forall>index cs rs.
        (\<forall>b. length (model b) = length b) \<and>
        create_improved_faiss_index legal_data model max_chunk_size overlap = Some (Inr (index, cs, rs)) \<longrightarrow>
          length index = length cs
        \<and> (\<forall>i<length cs.
               i div 8 < length (batches cs 8) \<and> i mod 8 < length (batches cs 8 ! (i div 8)) \<and>
               batches cs 8 ! (i div 8) ! (i mod 8) = cs ! i \<and>
               index ! i = model (map passage (batches cs 8 ! (i div 8))) ! (i mod 8))"
  proof (intro allI impI)
    fix index :: "'a list" and cs rs
    assume h: "(\<forall>b. length (model b) = length b) \<and>
        create_improved_faiss_index legal_data model max_chunk_size overlap = Some (Inr (index, cs, rs))"
    then have rows: "\<forall>b. length (model b) = length b" by simp
    from h have cr: "create_improved_faiss_index legal_data model max_chunk_size overlap =
        Some (Inr (index, cs, rs))" by simp
    have enc: "encode model cs 8 = Inr index"
      by (rule create_index_parts(2) [OF cr])
    have len: "length index = length cs"
      using length_concat_rows [of "batches cs 8" "\<lambda>batch_texts. model (map passage batch_texts)"]
        rows concat_batches [of 8 cs]
      by (simp add: encode_value [OF enc])
    have pos: "\<forall>i<length cs.
               i div 8 < length (batches cs 8) \<and> i mod 8 < length (batches cs 8 ! (i div 8)) \<and>
               batches cs 8 ! (i div 8) ! (i mod 8) = cs ! i \<and>
               index ! i = model (map passage (batches cs 8 ! (i div 8))) ! (i mod 8)"
      using encode_positions [OF rows enc] by blast
    show "length index = length cs
        \<and> (\<forall>i<length cs.
               i div 8 < length (batches cs 8) \<and> i mod 8 < length (batches cs 8 ! (i div 8)) \<and>
               batches cs 8 ! (i div 8) ! (i mod 8) = cs ! i \<and>
               index ! i = model (map passage (batches cs 8 ! (i div 8))) ! (i mod 8))"
      by (rule conjI [OF len pos])
  qed
  have D: "1 \<le> max_chunk_size \<and> overlap < max_chunk_size \<and> legal_data \<noteq> [] \<longrightarrow>
        (\<exists>index cs rs.
           create_improved_faiss_index legal_data model max_chunk_size overlap = Some (Inr (index, cs, rs)))"
    using create_index_returns [of max_chunk_size overlap legal_data model] by blast
  show ?thesis
    by (rule conjI [OF A conjI [OF B conjI [OF C conjI [OF P D]]]])
qed

theorem chunks_references_index_aligned_witness:
  "chunk_documents [\<lparr>text_of = ustr ''a b c d e'', reference = ustr ''Art.1''\<rparr>] 3 1 =
     Some (Inr ([ustr ''a b c'', ustr ''c d e'', ustr ''e''],
                [ustr ''Art.1'' @ fragment_label @ ustr ''1'',
                 ustr ''Art.1'' @ fragment_label @ ustr ''1'',
                 ustr ''Art.1'' @ fragment_label @ ustr ''2'']))
   \<and> [ustr ''a b c'', ustr ''c d e'', ustr ''e''] =
       map (origin_text [\<lparr>text_of = ustr ''a b c d e'', reference = ustr ''Art.1''\<rparr>] 3)
         [(0, Some 0), (0, Some 2), (0, Some 4)]
   \<and> [ustr ''Art.1'' @ fragment_label @ ustr ''1'', ustr ''Art.1'' @ fragment_label @ ustr ''1'',
       ustr ''Art.1'' @ fragment_label @ ustr ''2''] =
       map (origin_ref [\<lparr>text_of = ustr ''a b c d e'', reference = ustr ''Art.1''\<rparr>] 3)
         [(0, Some 0), (0, Some 2), (0, Some 4)]
   \<and> (1::int) \<le> 3 \<and> (1::int) < 3
   \<and> create_improved_faiss_index [\<lparr>text_of = ustr ''a b c d e'', reference = ustr ''Art.1''\<rparr>]
         (map length) 3 1 =
       Some (Inr ([14, 14, 10], [ustr ''a b c'', ustr ''c d e'', ustr ''e''],
                  [ustr ''Art.1'' @ fragment_label @ ustr ''1'',
                   ustr ''Art.1'' @ fragment_label @ ustr ''1'',
                   ustr ''Art.1'' @ fragment_label @ ustr ''2'']))
   \<and> length [14, 14, 10 :: nat] = length [ustr ''a b c'', ustr ''c d e'', ustr ''e'']
   \<and> batches [ustr ''a b c'', ustr ''c d e'', ustr ''e''] 8 ! (2 div 8) ! (2 mod 8) =
       [ustr ''a b c'', ustr ''c d e'', ustr ''e''] ! 2
   \<and> [14, 14, 10] ! 2 =
       map length (map passage (batches [ustr ''a b c'', ustr ''c d e'', ustr ''e''] 8 ! (2 div 8))) ! (2 mod 8)"
proof -
  let ?D = "[\<lparr>text_of = ustr ''a b c d e'', reference = ustr ''Art.1''\<rparr>]"
  let ?CS = "[ustr ''a b c'', ustr ''c d e'', ustr ''e'']"
  let ?RS = "[ustr ''Art.1'' @ fragment_label @ ustr ''1'', ustr ''Art.1'' @ fragment_label @ ustr ''1'',
              ustr ''Art.1'' @ fragment_label @ ustr ''2'']"
  note T = chunks_references_index_aligned [of ?D 3 1 "map length"]
  have words: "py_split (ustr ''a b c d e'') = [[97], [98], [99], [100], [101]]"
    by (simp add: py_split_def ustr_def py_isspace_def)
  have starts: "py_range 0 5 2 = [0, 2, 4]"
    by (simp add: py_range.simps)
  have origins: "origins_from 0 ?D 3 1 = [(0, Some 0), (0, Some 2), (0, Some 4)]"
    by (simp add: item_windows_def words starts)
  have run: "chunk_documents ?D 3 1 = Some (Inr (?CS, ?RS))"
    by (rule art1_run)
  have b8: "py_range 0 3 8 = [0]"
    by (simp add: py_range.simps)
  have bat: "batches ?CS 8 = [?CS]"
    by (simp add: batches_def b8 py_slice_def slice_bound_def)
  have create: "create_improved_faiss_index ?D (map length) 3 1 = Some (Inr ([14, 14, 10], ?CS, ?RS))"
    by (simp add: create_improved_faiss_index_def run encode_def bat index_add_def passage_def)
      (simp add: ustr_def)
  have rows: "\<forall>b::pystr list. length (map length b) = length b" by simp
  have l3: "length ?CS = 3" by simp
  have c1a: "?CS = map (origin_text ?D 3) [(0, Some 0), (0, Some 2), (0, Some 4)]"
    using T run unfolding origins by blast
  have c1b: "?RS = map (origin_ref ?D 3) [(0, Some 0), (0, Some 2), (0, Some 4)]"
    using T run unfolding origins by blast
  have c2a: "length [14, 14, 10 :: nat] = length ?CS"
    by simp
  have "\<forall>i<length ?CS.
          i div 8 < length (batches ?CS 8) \<and> i mod 8 < length (batches ?CS 8 ! (i div 8)) \<and>
          batches ?CS 8 ! (i div 8) ! (i mod 8) = ?CS ! i \<and>
          [14, 14, 10] ! i = map length (map passage (batches ?CS 8 ! (i div 8))) ! (i mod 8)"
    using T rows create by blast
  then have "2 div 8 < length (batches ?CS 8) \<and> 2 mod 8 < length (batches ?CS 8 ! (2 div 8)) \<and>
          batches ?CS 8 ! (2 div 8) ! (2 mod 8) = ?CS ! 2 \<and>
          [14, 14, 10] ! 2 = map length (map passage (batches ?CS 8 ! (2 div 8))) ! (2 mod 8)"
    unfolding l3 by (rule allE [of _ 2]) simp
  then have c2b: "batches ?CS 8 ! (2 div 8) ! (2 mod 8) = ?CS ! 2"
    and c2c: "[14, 14, 10] ! 2 = map length (map passage (batches ?CS 8 ! (2 div 8))) ! (2 mod 8)"
    by blast+
  have n1: "(1::int) \<le> 3" and n2: "(1::int) < 3" by simp_all
  show ?thesis
    by (intro conjI) (fact run c1a c1b n1 n2 create c2a c2b c2c)+
qed

text \<open>
  A run that never returns: three words, \<open>max_chunk_size = 2\<close> and \<open>overlap = 5\<close>.
\<close>

theorem chunk_documents_returns_counterexample:
  "chunk_documents [\<lparr>text_of = ustr ''x y z'', reference = ustr ''Art.5''\<rparr>] 2 5 = None"
proof -
  have words: "py_split (ustr ''x y z'') = [[120], [121], [122]]"
    by (simp add: py_split_def ustr_def py_isspace_def)
  show ?thesis
    using chunk_items_no_step [of 2 5 "[\<lparr>text_of = ustr ''x y z'', reference = ustr ''Art.5''\<rparr>]" "([], [])"]
    by (simp add: chunk_documents_def words)
qed

section \<open>No check when a saved index is read back\<close>

text \<open>
  Claim C8, as the code has it. The only code that reads a saved index back is the last
  cell. When the two files exist it unpickles the data file and reports the number of chunks
  and the model name, whatever the number of references and of stored vectors: nothing
  compares the three counts and no mismatch is reported.
\<close>

theorem verification_cell_no_validation:
  assumes "fs (os_path_join output_dir (ustr ''legal_index.faiss'')) = Some (FaissIndexFile vectors)"
    and "fs (os_path_join output_dir (ustr ''chunks_references.pkl'')) = Some (PickleFile data)"
  shows "verification_cell fs output_dir = Inr (Some (length (chunks data), embedder_model data))"
  using assms by (simp add: verification_cell_def Let_def)

theorem verification_cell_no_validation_witness:
  "[ustr ''out/legal_index.faiss'' \<mapsto> FaissIndexFile [1::nat, 2, 3],
    ustr ''out/chunks_references.pkl'' \<mapsto>
      PickleFile \<lparr>chunks = [ustr ''c1''], references = [], embedder_model = ustr ''e5''\<rparr>]
     (os_path_join (ustr ''out'') (ustr ''legal_index.faiss'')) = Some (FaissIndexFile [1, 2, 3])
   \<and> verification_cell
       [ustr ''out/legal_index.faiss'' \<mapsto> FaissIndexFile [1::nat, 2, 3],
        ustr ''out/chunks_references.pkl'' \<mapsto>
          PickleFile \<lparr>chunks = [ustr ''c1''], references = [], embedder_model = ustr ''e5''\<rparr>]
       (ustr ''out'') = Inr (Some (1, ustr ''e5''))"
  using verification_cell_no_validation
    [of "[ustr ''out/legal_index.faiss'' \<mapsto> FaissIndexFile [1::nat, 2, 3],
          ustr ''out/chunks_references.pkl'' \<mapsto>
            PickleFile \<lparr>chunks = [ustr ''c1''], references = [], embedder_model = ustr ''e5''\<rparr>]"
        "ustr ''out''" "[1, 2, 3]"
        "\<lparr>chunks = [ustr ''c1''], references = [], embedder_model = ustr ''e5''\<rparr>"]
  by (simp add: os_path_join_def ustr_def)

text \<open>
  A saved index of one vector with two chunks and no reference is read back without any
  error.
\<close>

theorem misaligned_bundle_counterexample:
  "verification_cell
     [ustr ''data/legal_index.faiss'' \<mapsto> FaissIndexFile [7::nat],
      ustr ''data/chunks_references.pkl'' \<mapsto>
        PickleFile \<lparr>chunks = [ustr ''c1'', ustr ''c2''], references = [],
                     embedder_model = ustr ''e5''\<rparr>]
     (ustr ''data'') = Inr (Some (2, ustr ''e5''))"
  by (simp add: verification_cell_def Let_def os_path_join_def ustr_def)

end
